theory Spec2Isabelle
  imports Main "HOL-Library.Sublist"
begin

section \<open>The in-memory store of authors and books\<close>

text \<open>
  The resolvers file keeps one object \<open>data\<close> with two arrays. An author is
  \<open>{ id, name, bookIds }\<close>, a book is \<open>{ id, title, publishedYear, authorId }\<close>.
  The field \<open>id\<close> of either object clashes with the identity function of HOL and is
  written \<open>id_Author\<close> and \<open>id_Book\<close>. \<open>publishedYear\<close> is declared \<open>Int\<close> without
  \<open>!\<close> in the schema, so it may be missing: \<open>None\<close>.
\<close>

record Author =
  id_Author :: string
  name :: string
  bookIds :: "string list"

record Book =
  id_Book :: string
  title :: string
  publishedYear :: "int option"
  authorId :: string

record store =
  authors :: "Author list"
  books :: "Book list"

text \<open>The seeded value of \<open>data\<close> (lines 3 to 18).\<close>

definition data :: store where
  "data =
     \<lparr> authors =
         [ \<lparr> id_Author = ''1'', name = ''Chirag Goel'', bookIds = [''101'', ''102''] \<rparr>,
           \<lparr> id_Author = ''2'', name = ''Akshay Saini'', bookIds = [''103''] \<rparr> ],
       books =
         [ \<lparr> id_Book = ''101'', title = ''Namaste Frontend System Design'',
             publishedYear = Some 2000, authorId = ''1'' \<rparr>,
           \<lparr> id_Book = ''102'', title = ''Book 2'', publishedYear = Some 2010,
             authorId = ''1'' \<rparr>,
           \<lparr> id_Book = ''103'', title = ''Book 3'', publishedYear = Some 2020,
             authorId = ''2'' \<rparr> ] \<rparr>"

section \<open>Number to text\<close>

text \<open>
  \<open>(data.books.length + 101).toString()\<close> writes a non-negative integer in decimal,
  most significant digit first and without leading zeros. The length of an array is
  taken as a natural number; the engine's bound on array lengths is not modelled.
\<close>

definition digit :: "nat \<Rightarrow> char" where
  "digit d = char_of (48 + d)"

function toString :: "nat \<Rightarrow> string" where
  "toString n = (if n < 10 then [digit n] else toString (n div 10) @ [digit (n mod 10)])"
  by pat_completeness auto
termination
  by (relation "measure (\<lambda>n. n)") auto

declare toString.simps [simp del]

text \<open>
  The number a decimal numeral stands for. It is not part of the program; it says what
  "formatted as text" means and is the left inverse of \<open>toString\<close>.
\<close>

definition dec_value :: "string \<Rightarrow> nat" where
  "dec_value cs = foldl (\<lambda>acc c. 10 * acc + (of_char c - 48)) 0 cs"

section \<open>The resolvers\<close>

text \<open>
  Each resolver reads the module-level \<open>data\<close>; the model passes the store in.
  \<open>Array.prototype.find\<close> returns the first element that satisfies the predicate, or
  \<open>undefined\<close>: \<open>List.find\<close> with \<open>None\<close>. \<open>===\<close> on two strings is equality.
\<close>

definition Book_author :: "store \<Rightarrow> Book \<Rightarrow> Author option" where
  "Book_author s parent =
     find (\<lambda>authorDetail. id_Author authorDetail = authorId parent) (authors s)"

definition Author_books :: "store \<Rightarrow> Author \<Rightarrow> Book list" where
  "Author_books s parent =
     filter (\<lambda>book. id_Book book \<in> set (bookIds parent)) (books s)"

definition Query_authors :: "store \<Rightarrow> Author list" where
  "Query_authors s = authors s"

definition Query_books :: "store \<Rightarrow> Book list" where
  "Query_books s = books s"

text \<open>
  The arguments of \<open>addBook\<close>, after the schema has checked them: \<open>title: String!\<close>,
  \<open>publishedYear: Int\<close>, \<open>authorId: ID!\<close>.
\<close>

record args =
  title_arg :: string
  publishedYear_arg :: "int option"
  authorId_arg :: string

text \<open>
  \<open>author.bookIds.push(newBook.id)\<close> changes the object that \<open>find\<close> returned, which
  is the first element of \<open>data.authors\<close> with the given id, in place. With the store a
  value, that is the list with this one element replaced. The seeded authors are
  separate objects with separate \<open>bookIds\<close> arrays and no resolver adds an author or
  stores a reference to one, so the push is seen through no other element.
\<close>

fun push_bookId :: "string \<Rightarrow> string \<Rightarrow> Author list \<Rightarrow> Author list" where
  "push_bookId aid bid [] = []"
| "push_bookId aid bid (a # as) =
     (if id_Author a = aid then a\<lparr>bookIds := bookIds a @ [bid]\<rparr> # as
      else a # push_bookId aid bid as)"

definition Mutation_addBook :: "store \<Rightarrow> args \<Rightarrow> store \<times> Book" where
  "Mutation_addBook s a =
     (let newBook = \<lparr> id_Book = toString (length (books s) + 101),
                      title = title_arg a,
                      publishedYear = publishedYear_arg a,
                      authorId = authorId_arg a \<rparr>;
          s1 = s\<lparr>books := books s @ [newBook]\<rparr>;
          author = find (\<lambda>x. id_Author x = authorId_arg a) (authors s1)
      in case author of
           None \<Rightarrow> (s1, newBook)
         | Some _ \<Rightarrow>
             (s1\<lparr>authors := push_bookId (authorId_arg a) (id_Book newBook) (authors s1)\<rparr>,
              newBook))"

text \<open>A run of \<open>addBook\<close> calls: the final store and the books returned, in call order.\<close>

fun addBooks :: "store \<Rightarrow> args list \<Rightarrow> store \<times> Book list" where
  "addBooks s [] = (s, [])"
| "addBooks s (a # as) =
     (case Mutation_addBook s a of
        (s1, b) \<Rightarrow> (case addBooks s1 as of (s2, bs) \<Rightarrow> (s2, b # bs)))"

subsection \<open>The resolvers as the engine calls them\<close>

text \<open>
  The engine calls \<open>resolvers[Type][field](parent, args, context, info)\<close>. For a root
  field \<open>parent\<close> is \<open>undefined\<close> and is not read. For \<open>Book.author\<close> and
  \<open>Author.books\<close> it is the object an earlier resolver returned. Reading a property of
  \<open>undefined\<close> throws a TypeError, and so does \<open>parent.bookIds.includes\<close> when \<open>parent\<close>
  has no \<open>bookIds\<close>; a missing \<open>authorId\<close> reads as \<open>undefined\<close>, which no author id
  equals. Both reads stand inside the callback of \<open>find\<close> or \<open>filter\<close>, so they happen
  only when the array searched has an element.
\<close>

datatype jsval = Undefined | BookV Book | AuthorV Author

datatype field = F_Book_author | F_Author_books | F_Query_authors | F_Query_books
  | F_Mutation_addBook

datatype result = R_Author "Author option" | R_Books "Book list" | R_Authors "Author list"
  | R_Book Book

datatype error = TypeError

fun resolve :: "field \<Rightarrow> store \<Rightarrow> jsval \<Rightarrow> args \<Rightarrow> error + store \<times> result" where
  "resolve F_Book_author s (BookV b) a = Inr (s, R_Author (Book_author s b))"
| "resolve F_Book_author s (AuthorV _) a = Inr (s, R_Author None)"
| "resolve F_Book_author s Undefined a =
     (if authors s = [] then Inr (s, R_Author None) else Inl TypeError)"
| "resolve F_Author_books s (AuthorV au) a = Inr (s, R_Books (Author_books s au))"
| "resolve F_Author_books s _ a =
     (if books s = [] then Inr (s, R_Books []) else Inl TypeError)"
| "resolve F_Query_authors s _ a = Inr (s, R_Authors (Query_authors s))"
| "resolve F_Query_books s _ a = Inr (s, R_Books (Query_books s))"
| "resolve F_Mutation_addBook s _ a =
     (case Mutation_addBook s a of (s1, b) \<Rightarrow> Inr (s1, R_Book b))"

text \<open>The parent has the shape the schema declares for the field's type.\<close>

fun well_shaped :: "field \<Rightarrow> jsval \<Rightarrow> bool" where
  "well_shaped F_Book_author p = (case p of BookV _ \<Rightarrow> True | _ \<Rightarrow> False)"
| "well_shaped F_Author_books p = (case p of AuthorV _ \<Rightarrow> True | _ \<Rightarrow> False)"
| "well_shaped _ p = True"

section \<open>Looking up the first match\<close>


lemma find_first_split:
  "find P xs = Some a \<Longrightarrow> \<exists>pre post. xs = pre @ a # post \<and> P a \<and> (\<forall>x\<in>set pre. \<not> P x)"
proof (induction xs)
  case Nil
  then show ?case by simp
next
  case (Cons x xs)
  show ?case
  proof (cases "P x")
    case True
    with Cons.prems have "x = a" by simp
    with True have "x # xs = [] @ a # xs \<and> P a \<and> (\<forall>y\<in>set []. \<not> P y)" by simp
    then show ?thesis by blast
  next
    case False
    with Cons.prems have "find P xs = Some a" by simp
    from Cons.IH [OF this] obtain pre post
      where "xs = pre @ a # post" "P a" "\<forall>y\<in>set pre. \<not> P y" by blast
    with False have "x # xs = (x # pre) @ a # post \<and> P a \<and> (\<forall>y\<in>set (x # pre). \<not> P y)"
      by simp
    then show ?thesis by blast
  qed
qed

lemma find_Some_mem: "find P xs = Some a \<Longrightarrow> a \<in> set xs \<and> P a"
  by (induction xs) (auto split: if_splits)

lemma find_mem_Some: "x \<in> set xs \<Longrightarrow> P x \<Longrightarrow> \<exists>a. find P xs = Some a"
  by (induction xs) auto

lemma find_unique_key:
  "distinct (map k xs) \<Longrightarrow> x \<in> set xs \<Longrightarrow> k x = v \<Longrightarrow> find (\<lambda>y. k y = v) xs = Some x"
  by (induction xs) (auto simp: image_iff)

section \<open>Book.author\<close>

text \<open>
  Claim C1. For every book \<open>b\<close> (in the store or not), \<open>Book.author\<close> applied to
  \<open>b\<close> returns an author of the store whose id equals \<open>b.authorId\<close>: the first such
  author in store order, which is the only one when author ids are distinct. It returns
  a value whenever such an author exists, and it returns absent, not an error, when no
  author has that id.
\<close>

theorem Book_author_resolves:
  "(\<forall>a. Book_author s b = Some a \<longrightarrow>
      (\<exists>pre post. authors s = pre @ a # post \<and> id_Author a = authorId b
         \<and> (\<forall>x\<in>set pre. id_Author x \<noteq> authorId b))) \<and>
   ((\<exists>x\<in>set (authors s). id_Author x = authorId b) \<longrightarrow>
      (\<exists>a. Book_author s b = Some a \<and> a \<in> set (authors s) \<and> id_Author a = authorId b)) \<and>
   (distinct (map id_Author (authors s)) \<longrightarrow>
      (\<forall>x\<in>set (authors s). id_Author x = authorId b \<longrightarrow> Book_author s b = Some x)) \<and>
   ((\<forall>x\<in>set (authors s). id_Author x \<noteq> authorId b) \<longrightarrow> Book_author s b = None)"
proof (intro conjI allI impI ballI)
  fix a assume "Book_author s b = Some a"
  then show "\<exists>pre post. authors s = pre @ a # post \<and> id_Author a = authorId b
         \<and> (\<forall>x\<in>set pre. id_Author x \<noteq> authorId b)"
    unfolding Book_author_def by (rule find_first_split)
next
  assume "\<exists>x\<in>set (authors s). id_Author x = authorId b"
  then obtain a where "Book_author s b = Some a"
    unfolding Book_author_def using find_mem_Some [of _ "authors s" "\<lambda>y. id_Author y = authorId b"]
    by blast
  moreover from this have "a \<in> set (authors s) \<and> id_Author a = authorId b"
    unfolding Book_author_def by (rule find_Some_mem)
  ultimately show "\<exists>a. Book_author s b = Some a \<and> a \<in> set (authors s) \<and> id_Author a = authorId b"
    by blast
next
  fix x assume "distinct (map id_Author (authors s))" "x \<in> set (authors s)"
    "id_Author x = authorId b"
  then show "Book_author s b = Some x"
    unfolding Book_author_def by (rule find_unique_key)
next
  assume "\<forall>x\<in>set (authors s). id_Author x \<noteq> authorId b"
  then show "Book_author s b = None"
    unfolding Book_author_def by (simp add: find_None_iff)
qed

theorem Book_author_resolves_witness:
  "Book_author data \<lparr>id_Book = ''102'', title = ''Book 2'', publishedYear = Some 2010, authorId = ''1''\<rparr>
     = Some \<lparr>id_Author = ''1'', name = ''Chirag Goel'', bookIds = [''101'', ''102'']\<rparr> \<and>
   Book_author data \<lparr>id_Book = ''900'', title = ''Lost'', publishedYear = None, authorId = ''7''\<rparr>
     = None"
proof -
  let ?b = "\<lparr>id_Book = ''102'', title = ''Book 2'', publishedYear = Some 2010, authorId = ''1''\<rparr>"
  let ?c = "\<lparr>id_Book = ''900'', title = ''Lost'', publishedYear = None, authorId = ''7''\<rparr>"
  let ?a = "\<lparr>id_Author = ''1'', name = ''Chirag Goel'', bookIds = [''101'', ''102'']\<rparr>"
  have d: "distinct (map id_Author (authors data))" by (simp add: data_def)
  have m: "?a \<in> set (authors data)" by (simp add: data_def)
  have k: "id_Author ?a = authorId ?b" by simp
  have n: "\<forall>x\<in>set (authors data). id_Author x \<noteq> authorId ?c" by (simp add: data_def)
  have "Book_author data ?b = Some ?a"
    by (rule Book_author_resolves [of data ?b, THEN conjunct2, THEN conjunct2, THEN conjunct1,
          rule_format, OF d m k])
  moreover have "Book_author data ?c = None"
    by (rule Book_author_resolves [of data ?c, THEN conjunct2, THEN conjunct2, THEN conjunct2,
          THEN mp, OF n])
  ultimately show ?thesis by (rule conjI)
qed

section \<open>Author.books\<close>

lemma count_list_filter:
  "count_list (filter P xs) x = (if P x then count_list xs x else 0)"
  by (induction xs) auto

text \<open>
  Claim C2. For every author \<open>a\<close>, \<open>Author.books\<close> applied to \<open>a\<close> returns exactly
  the books of the store whose id appears in \<open>a.bookIds\<close>: the same set, every book as
  often as the store holds it (so no duplicate is introduced, however often an id is
  repeated in \<open>bookIds\<close>), as a subsequence of the store's books, hence in store
  order. The result depends on \<open>bookIds\<close> only as a set, not on its order. It is empty
  when \<open>bookIds\<close> is empty or when no book matches.
\<close>

theorem Author_books_exact:
  "set (Author_books s a) = {b \<in> set (books s). id_Book b \<in> set (bookIds a)} \<and>
   subseq (Author_books s a) (books s) \<and>
   (\<forall>b. count_list (Author_books s a) b
      = (if id_Book b \<in> set (bookIds a) then count_list (books s) b else 0)) \<and>
   (distinct (books s) \<longrightarrow> distinct (Author_books s a)) \<and>
   (\<forall>a'. set (bookIds a') = set (bookIds a) \<longrightarrow> Author_books s a' = Author_books s a) \<and>
   (bookIds a = [] \<longrightarrow> Author_books s a = []) \<and>
   ((\<forall>b\<in>set (books s). id_Book b \<notin> set (bookIds a)) \<longrightarrow> Author_books s a = [])"
proof (intro conjI allI impI)
  show "set (Author_books s a) = {b \<in> set (books s). id_Book b \<in> set (bookIds a)}"
    by (simp add: Author_books_def)
  show "subseq (Author_books s a) (books s)"
    by (simp add: Author_books_def)
  show "count_list (Author_books s a) b
      = (if id_Book b \<in> set (bookIds a) then count_list (books s) b else 0)" for b
    unfolding Author_books_def by (rule count_list_filter)
  show "distinct (Author_books s a)" if "distinct (books s)"
    using that by (simp add: Author_books_def)
  show "Author_books s a' = Author_books s a" if "set (bookIds a') = set (bookIds a)" for a'
    using that by (simp add: Author_books_def)
  show "Author_books s a = []" if "bookIds a = []"
    using that by (simp add: Author_books_def)
  show "Author_books s a = []" if "\<forall>b\<in>set (books s). id_Book b \<notin> set (bookIds a)"
    using that by (simp add: Author_books_def)
qed

theorem Author_books_exact_witness:
  "set (Author_books data \<lparr>id_Author = ''1'', name = ''Chirag Goel'', bookIds = [''102'', ''555'', ''101'', ''102'']\<rparr>)
     = {b \<in> set (books data). id_Book b = ''101'' \<or> id_Book b = ''102''} \<and>
   distinct (Author_books data \<lparr>id_Author = ''1'', name = ''Chirag Goel'', bookIds = [''102'', ''555'', ''101'', ''102'']\<rparr>) \<and>
   Author_books data \<lparr>id_Author = ''1'', name = ''Chirag Goel'', bookIds = [''101'', ''102'', ''555'']\<rparr>
     = Author_books data \<lparr>id_Author = ''1'', name = ''Chirag Goel'', bookIds = [''102'', ''555'', ''101'', ''102'']\<rparr> \<and>
   Author_books data \<lparr>id_Author = ''3'', name = ''New'', bookIds = []\<rparr> = [] \<and>
   Author_books data \<lparr>id_Author = ''3'', name = ''New'', bookIds = [''555'']\<rparr> = []"
proof -
  let ?a = "\<lparr>id_Author = ''1'', name = ''Chirag Goel'', bookIds = [''102'', ''555'', ''101'', ''102'']\<rparr>"
  let ?a' = "\<lparr>id_Author = ''1'', name = ''Chirag Goel'', bookIds = [''101'', ''102'', ''555'']\<rparr>"
  let ?e = "\<lparr>id_Author = ''3'', name = ''New'', bookIds = []\<rparr>"
  let ?f = "\<lparr>id_Author = ''3'', name = ''New'', bookIds = [''555'']\<rparr>"
  have c: "{b \<in> set (books data). id_Book b \<in> set (bookIds ?a)}
     = {b \<in> set (books data). id_Book b = ''101'' \<or> id_Book b = ''102''}"
    by (auto simp: data_def)
  have d: "distinct (books data)" by (simp add: data_def)
  have p: "set (bookIds ?a') = set (bookIds ?a)" by (simp add: insert_commute)
  have e: "bookIds ?e = []" by simp
  have n: "\<forall>b\<in>set (books data). id_Book b \<notin> set (bookIds ?f)" by (simp add: data_def)
  note A = Author_books_exact [of data ?a]
  have "set (Author_books data ?a)
     = {b \<in> set (books data). id_Book b = ''101'' \<or> id_Book b = ''102''}"
    using A [THEN conjunct1] c by (rule trans)
  moreover have "distinct (Author_books data ?a)"
    by (rule A [THEN conjunct2, THEN conjunct2, THEN conjunct2, THEN conjunct1, THEN mp, OF d])
  moreover have "Author_books data ?a' = Author_books data ?a"
    by (rule A [THEN conjunct2, THEN conjunct2, THEN conjunct2, THEN conjunct2, THEN conjunct1,
          THEN spec, THEN mp, OF p])
  moreover have "Author_books data ?e = []"
    by (rule Author_books_exact [of data ?e, THEN conjunct2, THEN conjunct2, THEN conjunct2,
          THEN conjunct2, THEN conjunct2, THEN conjunct1, THEN mp, OF e])
  moreover have "Author_books data ?f = []"
    by (rule Author_books_exact [of data ?f, THEN conjunct2, THEN conjunct2, THEN conjunct2,
          THEN conjunct2, THEN conjunct2, THEN conjunct2, THEN mp, OF n])
  ultimately show ?thesis by (intro conjI)
qed

section \<open>Decimal numerals\<close>

lemma dec_digit: "d < 10 \<Longrightarrow> of_char (digit d) - (48::nat) = d"
  by (simp add: digit_def)

lemma dec_value_snoc: "dec_value (cs @ [c]) = 10 * dec_value cs + (of_char c - 48)"
  by (simp add: dec_value_def)

lemma dec_value_toString: "dec_value (toString n) = n"
proof (induction n rule: toString.induct)
  case (1 n)
  show ?case
  proof (cases "n < 10")
    case True
    then show ?thesis by (simp add: toString.simps [of n] dec_value_def dec_digit)
  next
    case False
    with 1 show ?thesis
      by (simp add: toString.simps [of n] dec_value_snoc dec_digit)
  qed
qed

lemma inj_toString: "inj toString"
  by (rule inj_on_inverseI [where g = dec_value]) (rule dec_value_toString)

section \<open>Mutation.addBook\<close>

lemma push_bookId_miss:
  "\<forall>x\<in>set as. id_Author x \<noteq> aid \<Longrightarrow> push_bookId aid bid as = as"
  by (induction as) auto

lemma push_bookId_split:
  "as = pre @ a # post \<Longrightarrow> id_Author a = aid \<Longrightarrow> \<forall>x\<in>set pre. id_Author x \<noteq> aid \<Longrightarrow>
   push_bookId aid bid as = pre @ a\<lparr>bookIds := bookIds a @ [bid]\<rparr> # post"
  by (induction pre arbitrary: as) auto

lemma length_push_bookId: "length (push_bookId aid bid as) = length as"
  by (induction as) auto

lemma map_id_push_bookId: "map id_Author (push_bookId aid bid as) = map id_Author as"
  by (induction as) auto

lemma map_name_push_bookId: "map name (push_bookId aid bid as) = map name as"
  by (induction as) auto

lemma find_push_bookId:
  "find (\<lambda>x. id_Author x = aid) (push_bookId aid bid as)
     = map_option (\<lambda>a. a\<lparr>bookIds := bookIds a @ [bid]\<rparr>) (find (\<lambda>x. id_Author x = aid) as)"
  by (induction as) auto

lemma nth_push_bookId:
  "i < length as \<Longrightarrow>
   push_bookId aid bid as ! i = as ! i \<or>
   (id_Author (as ! i) = aid \<and> push_bookId aid bid as ! i = (as ! i)\<lparr>bookIds := bookIds (as ! i) @ [bid]\<rparr>)"
  by (induction as arbitrary: i) (auto simp: nth_Cons split: nat.splits)

text \<open>
  Both branches of \<open>addBook\<close> give the same store: pushing onto the first author with the
  given id changes nothing when there is none.
\<close>

lemma Mutation_addBook_eq:
  "Mutation_addBook s a =
     (let nb = \<lparr> id_Book = toString (length (books s) + 101), title = title_arg a,
                 publishedYear = publishedYear_arg a, authorId = authorId_arg a \<rparr>
      in (\<lparr> authors = push_bookId (authorId_arg a) (id_Book nb) (authors s),
            books = books s @ [nb] \<rparr>, nb))"
proof (cases "find (\<lambda>x. id_Author x = authorId_arg a) (authors s)")
  case None
  then have "\<forall>x\<in>set (authors s). id_Author x \<noteq> authorId_arg a"
    by (simp add: find_None_iff)
  then have "push_bookId (authorId_arg a) bid (authors s) = authors s" for bid
    by (rule push_bookId_miss)
  with None show ?thesis by (simp add: Mutation_addBook_def Let_def)
next
  case (Some au)
  then show ?thesis by (simp add: Mutation_addBook_def Let_def)
qed

lemma addBook_books:
  "Mutation_addBook s a = (s', nb) \<Longrightarrow> books s' = books s @ [nb]"
  by (auto simp: Mutation_addBook_eq Let_def)

lemma addBook_authors:
  "Mutation_addBook s a = (s', nb) \<Longrightarrow>
   authors s' = push_bookId (authorId_arg a) (id_Book nb) (authors s)"
  by (auto simp: Mutation_addBook_eq Let_def)

lemma addBook_returned:
  "Mutation_addBook s a = (s', nb) \<Longrightarrow>
   nb = \<lparr> id_Book = toString (length (books s) + 101), title = title_arg a,
          publishedYear = publishedYear_arg a, authorId = authorId_arg a \<rparr>"
  by (auto simp: Mutation_addBook_eq Let_def)

lemma addBook_links_author:
  assumes run: "Mutation_addBook s a = (s', nb)"
    and f: "find (\<lambda>x. id_Author x = authorId_arg a) (authors s) = Some au"
  shows "Book_author s' nb = Some (au\<lparr>bookIds := bookIds au @ [id_Book nb]\<rparr>)"
    and "nb \<in> set (Author_books s' (au\<lparr>bookIds := bookIds au @ [id_Book nb]\<rparr>))"
proof -
  from run have nb: "authorId nb = authorId_arg a"
    by (auto dest: addBook_returned)
  from run f show "Book_author s' nb = Some (au\<lparr>bookIds := bookIds au @ [id_Book nb]\<rparr>)"
    by (simp add: Book_author_def nb addBook_authors find_push_bookId)
  from run show "nb \<in> set (Author_books s' (au\<lparr>bookIds := bookIds au @ [id_Book nb]\<rparr>))"
    by (simp add: Author_books_def addBook_books)
qed

text \<open>
  Claim C3. After \<open>addBook\<close> with title "New Book", publishedYear 2025 and authorId "1", on
  any store in which an author with id "1" exists: (a) \<open>Query.books\<close> is one longer, and
  its last element is the returned book; (b) the new book's authorId is "1"; (c) the
  author that \<open>Book.author\<close> resolves for the new book has id "1", is listed by
  \<open>Query.authors\<close>, and its \<open>Author.books\<close> includes the new book, as does that of every listed
  author with id "1" when author ids are distinct; (d) the returned book has title
  "New Book" and publishedYear 2025.
\<close>

theorem addBook_New_Book:
  assumes ex: "\<exists>x\<in>set (authors s). id_Author x = ''1''"
    and run: "Mutation_addBook s
       \<lparr>title_arg = ''New Book'', publishedYear_arg = Some 2025, authorId_arg = ''1''\<rparr> = (s', nb)"
  shows "length (Query_books s') = length (Query_books s) + 1 \<and>
         last (Query_books s') = nb \<and> authorId nb = ''1'' \<and>
         (\<exists>a'. Book_author s' nb = Some a' \<and> a' \<in> set (Query_authors s') \<and>
            id_Author a' = ''1'' \<and> nb \<in> set (Author_books s' a')) \<and>
         (distinct (map id_Author (authors s)) \<longrightarrow>
            (\<forall>a'\<in>set (Query_authors s'). id_Author a' = ''1'' \<longrightarrow> nb \<in> set (Author_books s' a'))) \<and>
         title nb = ''New Book'' \<and> publishedYear nb = Some 2025"
proof -
  let ?a = "\<lparr>title_arg = ''New Book'', publishedYear_arg = Some 2025, authorId_arg = ''1''\<rparr>"
  from ex obtain au where f: "find (\<lambda>x. id_Author x = authorId_arg ?a) (authors s) = Some au"
    using find_mem_Some [of _ "authors s" "\<lambda>x. id_Author x = ''1''"] by auto
  let ?au = "au\<lparr>bookIds := bookIds au @ [id_Book nb]\<rparr>"
  note L = addBook_links_author [OF run f]
  from L(1) have mem: "?au \<in> set (authors s') \<and> id_Author ?au = authorId nb"
    unfolding Book_author_def by (rule find_Some_mem)
  from run have fields: "authorId nb = ''1'' \<and> title nb = ''New Book'' \<and> publishedYear nb = Some 2025"
    by (auto dest: addBook_returned)
  from run have bs: "books s' = books s @ [nb]" by (rule addBook_books)
  have c: "\<exists>a'. Book_author s' nb = Some a' \<and> a' \<in> set (Query_authors s') \<and>
            id_Author a' = ''1'' \<and> nb \<in> set (Author_books s' a')"
    using L mem fields by (auto simp: Query_authors_def)
  have u: "nb \<in> set (Author_books s' a')"
    if d: "distinct (map id_Author (authors s))" and m: "a' \<in> set (Query_authors s')"
      and k: "id_Author a' = ''1''" for a'
  proof -
    from run have "map id_Author (authors s') = map id_Author (authors s)"
      by (simp add: addBook_authors map_id_push_bookId)
    with d have "distinct (map id_Author (authors s'))" by simp
    from find_unique_key [OF this, of a' "''1''"] m k
    have "find (\<lambda>y. id_Author y = ''1'') (authors s') = Some a'"
      by (simp add: Query_authors_def)
    with L(1) fields have "a' = ?au" by (simp add: Book_author_def)
    with L(2) show ?thesis by simp
  qed
  from bs c u fields show ?thesis by (simp add: Query_books_def)
qed

theorem addBook_New_Book_witness:
  "let R = Mutation_addBook data
        \<lparr>title_arg = ''New Book'', publishedYear_arg = Some 2025, authorId_arg = ''1''\<rparr>
   in length (Query_books (fst R)) = 4 \<and> last (Query_books (fst R)) = snd R \<and>
      authorId (snd R) = ''1'' \<and>
      snd R \<in> set (Author_books (fst R) (hd (Query_authors (fst R)))) \<and>
      title (snd R) = ''New Book'' \<and> publishedYear (snd R) = Some 2025"
proof -
  let ?R = "Mutation_addBook data
        \<lparr>title_arg = ''New Book'', publishedYear_arg = Some 2025, authorId_arg = ''1''\<rparr>"
  have ex: "\<exists>x\<in>set (authors data). id_Author x = ''1''" by (simp add: data_def)
  have run: "?R = (fst ?R, snd ?R)" by simp
  note T = addBook_New_Book [OF ex run]
  have d: "distinct (map id_Author (authors data))" by (simp add: data_def)
  have m: "hd (Query_authors (fst ?R)) \<in> set (Query_authors (fst ?R))"
    by (simp add: Query_authors_def Mutation_addBook_eq Let_def data_def)
  have k: "id_Author (hd (Query_authors (fst ?R))) = ''1''"
    by (simp add: Query_authors_def Mutation_addBook_eq Let_def data_def)
  have n: "length (Query_books data) + 1 = 4" by (simp add: Query_books_def data_def)
  have "length (Query_books (fst ?R)) = 4"
    using T [THEN conjunct1] n by (rule trans)
  moreover have "last (Query_books (fst ?R)) = snd ?R"
    by (rule T [THEN conjunct2, THEN conjunct1])
  moreover have "authorId (snd ?R) = ''1''"
    by (rule T [THEN conjunct2, THEN conjunct2, THEN conjunct1])
  moreover have "snd ?R \<in> set (Author_books (fst ?R) (hd (Query_authors (fst ?R))))"
    by (rule T [THEN conjunct2, THEN conjunct2, THEN conjunct2, THEN conjunct2, THEN conjunct1,
          THEN mp, OF d, THEN bspec, OF m, THEN mp, OF k])
  moreover have "title (snd ?R) = ''New Book'' \<and> publishedYear (snd ?R) = Some 2025"
    by (rule T [THEN conjunct2, THEN conjunct2, THEN conjunct2, THEN conjunct2, THEN conjunct2])
  ultimately show ?thesis unfolding Let_def by (intro conjI) simp_all
qed

text \<open>
  Claim C4. For every store and every argument triple, the id of the book that
  \<open>addBook\<close> creates is the number of books in the store plus 101, written in decimal; the
  book carries the arguments given, and it is appended to the books. When an author with
  the given authorId exists, the new id is appended to the \<open>bookIds\<close> of the first such
  author, and the other authors stay as they are.
\<close>

theorem addBook_policy:
  assumes run: "Mutation_addBook s a = (s', nb)"
  shows "id_Book nb = toString (length (books s) + 101) \<and>
         dec_value (id_Book nb) = length (books s) + 101 \<and>
         title nb = title_arg a \<and> publishedYear nb = publishedYear_arg a \<and>
         authorId nb = authorId_arg a \<and>
         books s' = books s @ [nb] \<and>
         ((\<exists>x\<in>set (authors s). id_Author x = authorId_arg a) \<longrightarrow>
            (\<exists>pre au post. authors s = pre @ au # post \<and> id_Author au = authorId_arg a \<and>
               (\<forall>x\<in>set pre. id_Author x \<noteq> authorId_arg a) \<and>
               authors s' = pre @ au\<lparr>bookIds := bookIds au @ [id_Book nb]\<rparr> # post))"
proof -
  from run have nb: "nb = \<lparr> id_Book = toString (length (books s) + 101), title = title_arg a,
          publishedYear = publishedYear_arg a, authorId = authorId_arg a \<rparr>"
    by (rule addBook_returned)
  then have i: "id_Book nb = toString (length (books s) + 101)" by simp
  then have v: "dec_value (id_Book nb) = length (books s) + 101"
    by (simp add: dec_value_toString)
  from run have bs: "books s' = books s @ [nb]" by (rule addBook_books)
  have link: "\<exists>pre au post. authors s = pre @ au # post \<and> id_Author au = authorId_arg a \<and>
               (\<forall>x\<in>set pre. id_Author x \<noteq> authorId_arg a) \<and>
               authors s' = pre @ au\<lparr>bookIds := bookIds au @ [id_Book nb]\<rparr> # post"
    if "\<exists>x\<in>set (authors s). id_Author x = authorId_arg a"
  proof -
    from that obtain au where "find (\<lambda>x. id_Author x = authorId_arg a) (authors s) = Some au"
      using find_mem_Some [of _ "authors s" "\<lambda>x. id_Author x = authorId_arg a"] by auto
    from find_first_split [OF this] obtain pre post
      where sp: "authors s = pre @ au # post" "id_Author au = authorId_arg a"
        "\<forall>x\<in>set pre. id_Author x \<noteq> authorId_arg a" by blast
    from push_bookId_split [OF sp, of "id_Book nb"] run
    have "authors s' = pre @ au\<lparr>bookIds := bookIds au @ [id_Book nb]\<rparr> # post"
      by (simp add: addBook_authors)
    with sp show ?thesis by blast
  qed
  from nb i v bs link show ?thesis by simp
qed

theorem addBook_policy_witness:
  "let R = Mutation_addBook data
        \<lparr>title_arg = ''T'', publishedYear_arg = None, authorId_arg = ''2''\<rparr>
   in id_Book (snd R) = ''104'' \<and> dec_value (id_Book (snd R)) = 104 \<and>
      books (fst R) = books data @ [snd R] \<and>
      map bookIds (authors (fst R)) = [[''101'', ''102''], [''103'', ''104'']]"
proof -
  let ?A = "\<lparr>title_arg = ''T'', publishedYear_arg = None, authorId_arg = ''2''\<rparr>"
  let ?R = "Mutation_addBook data ?A"
  have run: "?R = (fst ?R, snd ?R)" by simp
  note T = addBook_policy [OF run]
  have ex: "\<exists>x\<in>set (authors data). id_Author x = authorId_arg ?A" by (simp add: data_def)
  have n: "length (books data) + 101 = 104" by (simp add: data_def)
  have "toString 104 = ''104''" by code_simp
  with n have t: "toString (length (books data) + 101) = ''104''" by (simp only:)
  have i: "id_Book (snd ?R) = ''104''"
    using T [THEN conjunct1] t by (rule trans)
  have v: "dec_value (id_Book (snd ?R)) = 104"
    using T [THEN conjunct2, THEN conjunct1] n by (rule trans)
  have b: "books (fst ?R) = books data @ [snd ?R]"
    by (rule T [THEN conjunct2, THEN conjunct2, THEN conjunct2, THEN conjunct2, THEN conjunct2,
          THEN conjunct1])
  from T [THEN conjunct2, THEN conjunct2, THEN conjunct2, THEN conjunct2, THEN conjunct2,
          THEN conjunct2, THEN mp, OF ex]
  obtain pre au post where sp: "authors data = pre @ au # post" "id_Author au = ''2''"
      "\<forall>x\<in>set pre. id_Author x \<noteq> ''2''"
      "authors (fst ?R) = pre @ au\<lparr>bookIds := bookIds au @ [id_Book (snd ?R)]\<rparr> # post"
    by auto
  from sp(1,2,3) have "pre = [\<lparr>id_Author = ''1'', name = ''Chirag Goel'', bookIds = [''101'', ''102'']\<rparr>]
      \<and> au = \<lparr>id_Author = ''2'', name = ''Akshay Saini'', bookIds = [''103'']\<rparr> \<and> post = []"
    by (auto simp: data_def Cons_eq_append_conv)
  with sp(4) i have a: "map bookIds (authors (fst ?R)) = [[''101'', ''102''], [''103'', ''104'']]"
    by simp
  from i v b a show ?thesis unfolding Let_def by (intro conjI)
qed

text \<open>
  Claim C5. When no author has the given authorId, \<open>addBook\<close> still returns a created
  book, with that authorId and the other arguments, appended to the books; the authors
  are unchanged, so no author's \<open>bookIds\<close> gains the new id; and \<open>Book.author\<close> on the
  returned book resolves to absent.
\<close>

theorem addBook_unlinked:
  assumes miss: "\<forall>x\<in>set (authors s). id_Author x \<noteq> authorId_arg a"
  shows "\<exists>s' nb. resolve F_Mutation_addBook s p a = Inr (s', R_Book nb) \<and>
           authorId nb = authorId_arg a \<and> title nb = title_arg a \<and>
           publishedYear nb = publishedYear_arg a \<and>
           Query_books s' = Query_books s @ [nb] \<and>
           Query_authors s' = Query_authors s \<and>
           Book_author s' nb = None \<and>
           resolve F_Book_author s' (BookV nb) a' = Inr (s', R_Author None)"
proof -
  obtain s' nb where run: "Mutation_addBook s a = (s', nb)" by (cases "Mutation_addBook s a")
  then have r: "resolve F_Mutation_addBook s p a = Inr (s', R_Book nb)" by simp
  from run have nb: "authorId nb = authorId_arg a \<and> title nb = title_arg a \<and>
           publishedYear nb = publishedYear_arg a"
    by (auto dest: addBook_returned)
  from run have bs: "books s' = books s @ [nb]" by (rule addBook_books)
  from run miss have au: "authors s' = authors s"
    by (simp add: addBook_authors push_bookId_miss)
  with miss nb have n: "Book_author s' nb = None"
    by (simp add: Book_author_def find_None_iff)
  then have "resolve F_Book_author s' (BookV nb) a' = Inr (s', R_Author None)" by simp
  with r nb bs au n show ?thesis by (simp add: Query_books_def Query_authors_def)
qed

theorem addBook_unlinked_witness:
  "\<exists>s' nb. resolve F_Mutation_addBook data Undefined
        \<lparr>title_arg = ''X'', publishedYear_arg = Some 1999, authorId_arg = ''does-not-exist''\<rparr>
      = Inr (s', R_Book nb) \<and>
     authorId nb = ''does-not-exist'' \<and> title nb = ''X'' \<and> publishedYear nb = Some 1999 \<and>
     Query_books s' = Query_books data @ [nb] \<and>
     Query_authors s' = Query_authors data \<and>
     Book_author s' nb = None \<and>
     resolve F_Book_author s' (BookV nb)
        \<lparr>title_arg = [], publishedYear_arg = None, authorId_arg = []\<rparr> = Inr (s', R_Author None)"
proof -
  let ?A = "\<lparr>title_arg = ''X'', publishedYear_arg = Some 1999, authorId_arg = ''does-not-exist''\<rparr>"
  have miss: "\<forall>x\<in>set (authors data). id_Author x \<noteq> authorId_arg ?A"
    by (simp add: data_def)
  from addBook_unlinked [OF miss, of Undefined "\<lparr>title_arg = [], publishedYear_arg = None, authorId_arg = []\<rparr>"]
  show ?thesis by simp
qed

section \<open>What the operations leave alone\<close>

lemma resolve_read_only:
  "f \<noteq> F_Mutation_addBook \<Longrightarrow> resolve f s p a = Inr (s', r) \<Longrightarrow> s' = s"
  by (cases f; cases p) (auto split: if_splits)

lemma resolve_addBook:
  "resolve F_Mutation_addBook s p a = Inr (s', r) \<Longrightarrow>
   \<exists>nb. Mutation_addBook s a = (s', nb) \<and> r = R_Book nb"
  by (cases p) (auto split: prod.splits)

text \<open>
  Claim C6, as stated, fails: \<open>addBook\<close> with the id of an existing author appends the new
  id to that author's \<open>bookIds\<close>, so the authors after the call differ from the authors
  before it. On the seeded store, adding a book for author "1":
\<close>

theorem authors_frame_counterexample:
  "resolve F_Mutation_addBook data Undefined
      \<lparr>title_arg = ''New Book'', publishedYear_arg = Some 2025, authorId_arg = ''1''\<rparr>
     = Inr (\<lparr>authors =
               [\<lparr>id_Author = ''1'', name = ''Chirag Goel'', bookIds = [''101'', ''102'', ''104'']\<rparr>,
                \<lparr>id_Author = ''2'', name = ''Akshay Saini'', bookIds = [''103'']\<rparr>],
             books = books data @
               [\<lparr>id_Book = ''104'', title = ''New Book'', publishedYear = Some 2025,
                  authorId = ''1''\<rparr>]\<rparr>,
            R_Book \<lparr>id_Book = ''104'', title = ''New Book'', publishedYear = Some 2025,
                     authorId = ''1''\<rparr>) \<and>
   [\<lparr>id_Author = ''1'', name = ''Chirag Goel'', bookIds = [''101'', ''102'', ''104'']\<rparr>,
    \<lparr>id_Author = ''2'', name = ''Akshay Saini'', bookIds = [''103'']\<rparr>] \<noteq> authors data"
proof -
  have n: "length (books data) + 101 = 104" by (simp add: data_def)
  have "toString 104 = ''104''" by code_simp
  with n have t: "toString (length (books data) + 101) = ''104''" by (simp only:)
  show ?thesis by (simp add: Mutation_addBook_eq Let_def t) (simp add: data_def)
qed

text \<open>
  Claim C6, amended. No operation creates or deletes an author, reorders the authors or
  changes an author's id or name. The four read operations leave the whole store as it
  was. \<open>addBook\<close> leaves the authors as they were when no author has the given authorId;
  otherwise the only change to an author is the new book's id appended to the
  \<open>bookIds\<close> of an author with that id.
\<close>

theorem authors_frame:
  assumes run: "resolve f s p a = Inr (s', r)"
  shows "map id_Author (authors s') = map id_Author (authors s) \<and>
         map name (authors s') = map name (authors s) \<and>
         (f \<noteq> F_Mutation_addBook \<longrightarrow> s' = s) \<and>
         ((\<forall>x\<in>set (authors s). id_Author x \<noteq> authorId_arg a) \<longrightarrow> authors s' = authors s) \<and>
         (\<forall>i<length (authors s).
            authors s' ! i = authors s ! i \<or>
            (f = F_Mutation_addBook \<and> id_Author (authors s ! i) = authorId_arg a \<and>
             authors s' ! i = (authors s ! i)
               \<lparr>bookIds := bookIds (authors s ! i) @ [toString (length (books s) + 101)]\<rparr>))"
proof (cases "f = F_Mutation_addBook")
  case False
  from False run have "s' = s" by (rule resolve_read_only)
  with False show ?thesis by simp
next
  case True
  with run obtain nb where m: "Mutation_addBook s a = (s', nb)"
    using resolve_addBook by blast
  then have au: "authors s' = push_bookId (authorId_arg a) (id_Book nb) (authors s)"
    by (rule addBook_authors)
  from m have i: "id_Book nb = toString (length (books s) + 101)"
    by (auto dest: addBook_returned)
  have 1: "map id_Author (authors s') = map id_Author (authors s)"
    by (simp add: au map_id_push_bookId)
  have 2: "map name (authors s') = map name (authors s)"
    by (simp add: au map_name_push_bookId)
  have 3: "authors s' = authors s" if "\<forall>x\<in>set (authors s). id_Author x \<noteq> authorId_arg a"
    using that by (simp add: au push_bookId_miss)
  have 4: "authors s' ! i = authors s ! i \<or>
            (f = F_Mutation_addBook \<and> id_Author (authors s ! i) = authorId_arg a \<and>
             authors s' ! i = (authors s ! i)
               \<lparr>bookIds := bookIds (authors s ! i) @ [toString (length (books s) + 101)]\<rparr>)"
    if "i < length (authors s)" for i
    using nth_push_bookId [OF that, of "authorId_arg a" "id_Book nb"] True
    by (simp add: au i)
  from True 1 2 3 4 show ?thesis by simp
qed

theorem authors_frame_witness:
  "map id_Author (authors (fst (Mutation_addBook data
       \<lparr>title_arg = ''New Book'', publishedYear_arg = Some 2025, authorId_arg = ''1''\<rparr>)))
     = [''1'', ''2''] \<and>
   map name (authors (fst (Mutation_addBook data
       \<lparr>title_arg = ''New Book'', publishedYear_arg = Some 2025, authorId_arg = ''1''\<rparr>)))
     = [''Chirag Goel'', ''Akshay Saini''] \<and>
   authors (fst (Mutation_addBook data
       \<lparr>title_arg = ''X'', publishedYear_arg = Some 1999, authorId_arg = ''does-not-exist''\<rparr>))
     = authors data"
proof -
  let ?A = "\<lparr>title_arg = ''New Book'', publishedYear_arg = Some 2025, authorId_arg = ''1''\<rparr>"
  let ?B = "\<lparr>title_arg = ''X'', publishedYear_arg = Some 1999, authorId_arg = ''does-not-exist''\<rparr>"
  have ra: "resolve F_Mutation_addBook data Undefined ?A
      = Inr (fst (Mutation_addBook data ?A), R_Book (snd (Mutation_addBook data ?A)))"
    by (simp add: case_prod_unfold)
  have rb: "resolve F_Mutation_addBook data Undefined ?B
      = Inr (fst (Mutation_addBook data ?B), R_Book (snd (Mutation_addBook data ?B)))"
    by (simp add: case_prod_unfold)
  have i: "map id_Author (authors data) = [''1'', ''2'']" by (simp add: data_def)
  have n: "map name (authors data) = [''Chirag Goel'', ''Akshay Saini'']" by (simp add: data_def)
  have miss: "\<forall>x\<in>set (authors data). id_Author x \<noteq> authorId_arg ?B" by (simp add: data_def)
  have "map id_Author (authors (fst (Mutation_addBook data ?A))) = [''1'', ''2'']"
    using authors_frame [OF ra, THEN conjunct1] i by (rule trans)
  moreover have "map name (authors (fst (Mutation_addBook data ?A))) = [''Chirag Goel'', ''Akshay Saini'']"
    using authors_frame [OF ra, THEN conjunct2, THEN conjunct1] n by (rule trans)
  moreover have "authors (fst (Mutation_addBook data ?B)) = authors data"
    by (rule authors_frame [OF rb, THEN conjunct2, THEN conjunct2, THEN conjunct2, THEN conjunct1,
          THEN mp, OF miss])
  ultimately show ?thesis by (intro conjI)
qed

section \<open>Listings\<close>

lemma addBooks_listing:
  "addBooks s as = (s', bs) \<Longrightarrow>
   books s' = books s @ bs \<and> length bs = length as \<and>
   map title bs = map title_arg as \<and> map publishedYear bs = map publishedYear_arg as \<and>
   map authorId bs = map authorId_arg as"
proof (induction as arbitrary: s s' bs)
  case Nil
  then show ?case by simp
next
  case (Cons a as)
  obtain s1 b where m: "Mutation_addBook s a = (s1, b)" by (cases "Mutation_addBook s a")
  obtain s2 cs where r: "addBooks s1 as = (s2, cs)" by (cases "addBooks s1 as")
  from Cons.prems m r have e: "s' = s2" "bs = b # cs" by simp_all
  from m have b: "books s1 = books s @ [b]" by (rule addBook_books)
  from m have f: "title b = title_arg a \<and> publishedYear b = publishedYear_arg a \<and>
      authorId b = authorId_arg a"
    by (auto dest: addBook_returned)
  from Cons.IH [OF r] b e f show ?case by simp
qed

lemma push_bookId_extends:
  "list_all2 (\<lambda>x y. id_Author y = id_Author x \<and> name y = name x \<and> prefix (bookIds x) (bookIds y))
     as (push_bookId aid bid as)"
  by (induction as) (auto simp: list_all2_refl list.rel_refl)

lemma addBooks_authors:
  "addBooks s as = (s', bs) \<Longrightarrow>
   list_all2 (\<lambda>x y. id_Author y = id_Author x \<and> name y = name x \<and> prefix (bookIds x) (bookIds y))
     (authors s) (authors s')"
proof (induction as arbitrary: s s' bs)
  case Nil
  then show ?case by (simp add: list.rel_refl)
next
  case (Cons a as)
  let ?R = "\<lambda>x y. id_Author y = id_Author x \<and> name y = name x \<and> prefix (bookIds x) (bookIds y)"
  obtain s1 b where m: "Mutation_addBook s a = (s1, b)" by (cases "Mutation_addBook s a")
  obtain s2 cs where r: "addBooks s1 as = (s2, cs)" by (cases "addBooks s1 as")
  from Cons.prems m r have e: "s' = s2" by simp
  from m have "list_all2 ?R (authors s) (authors s1)"
    by (simp add: addBook_authors push_bookId_extends)
  moreover from Cons.IH [OF r] have "list_all2 ?R (authors s1) (authors s2)" .
  ultimately have "list_all2 ?R (authors s) (authors s2)"
    by (rule list_all2_trans [rotated]) auto
  with e show ?case by simp
qed

text \<open>
  Claim C7. On the seeded store \<open>Query.authors\<close> and \<open>Query.books\<close> return the seeded
  authors and books. After any run of \<open>addBook\<close> calls from the seeded store,
  \<open>Query.books\<close> returns the seeded books followed by the books the calls returned, in
  call order, each with the arguments of its call; \<open>Query.authors\<close> returns the two seeded
  authors, in order, with their ids and names, each \<open>bookIds\<close> extending the seeded one.
\<close>

theorem Query_listings:
  assumes run: "addBooks data as = (s', bs)"
  shows "Query_authors data = authors data \<and> Query_books data = books data \<and>
         Query_books s' = books data @ bs \<and> length bs = length as \<and>
         map title bs = map title_arg as \<and> map publishedYear bs = map publishedYear_arg as \<and>
         map authorId bs = map authorId_arg as \<and>
         map id_Author (Query_authors s') = [''1'', ''2''] \<and>
         map name (Query_authors s') = [''Chirag Goel'', ''Akshay Saini''] \<and>
         list_all2 (\<lambda>x y. prefix (bookIds x) (bookIds y)) (authors data) (Query_authors s')"
proof -
  let ?R = "\<lambda>x y. id_Author y = id_Author x \<and> name y = name x \<and> prefix (bookIds x) (bookIds y)"
  from addBooks_authors [OF run] have R: "list_all2 ?R (authors data) (authors s')" .
  then have "list_all2 (\<lambda>x y. id_Author y = id_Author x) (authors data) (authors s')"
    and "list_all2 (\<lambda>x y. name y = name x) (authors data) (authors s')"
    and p: "list_all2 (\<lambda>x y. prefix (bookIds x) (bookIds y)) (authors data) (authors s')"
    by (auto elim: list_all2_mono)
  then have "map id_Author (authors s') = map id_Author (authors data)"
    and "map name (authors s') = map name (authors data)"
    by (simp_all add: list_all2_conv_all_nth list_eq_iff_nth_eq)
  then have i: "map id_Author (authors s') = [''1'', ''2'']"
    and n: "map name (authors s') = [''Chirag Goel'', ''Akshay Saini'']"
    by (simp_all add: data_def)
  from addBooks_listing [OF run] i n p show ?thesis
    by (simp add: Query_authors_def Query_books_def)
qed

theorem Query_listings_witness:
  "let R = addBooks data
        [\<lparr>title_arg = ''New Book'', publishedYear_arg = Some 2025, authorId_arg = ''1''\<rparr>,
         \<lparr>title_arg = ''X'', publishedYear_arg = Some 1999, authorId_arg = ''does-not-exist''\<rparr>]
   in Query_books (fst R) = books data @ snd R \<and> length (snd R) = 2 \<and>
      map title (snd R) = [''New Book'', ''X''] \<and>
      map id_Author (Query_authors (fst R)) = [''1'', ''2'']"
proof -
  let ?as = "[\<lparr>title_arg = ''New Book'', publishedYear_arg = Some 2025, authorId_arg = ''1''\<rparr>,
         \<lparr>title_arg = ''X'', publishedYear_arg = Some 1999, authorId_arg = ''does-not-exist''\<rparr>]"
  let ?R = "addBooks data ?as"
  have run: "?R = (fst ?R, snd ?R)" by simp
  note T = Query_listings [OF run]
  have l: "length ?as = 2" by simp
  have t: "map title_arg ?as = [''New Book'', ''X'']" by simp
  have "Query_books (fst ?R) = books data @ snd ?R"
    by (rule T [THEN conjunct2, THEN conjunct2, THEN conjunct1])
  moreover have "length (snd ?R) = 2"
    using T [THEN conjunct2, THEN conjunct2, THEN conjunct2, THEN conjunct1] l by (rule trans)
  moreover have "map title (snd ?R) = [''New Book'', ''X'']"
    using T [THEN conjunct2, THEN conjunct2, THEN conjunct2, THEN conjunct2, THEN conjunct1] t
    by (rule trans)
  moreover have "map id_Author (Query_authors (fst ?R)) = [''1'', ''2'']"
    by (rule T [THEN conjunct2, THEN conjunct2, THEN conjunct2, THEN conjunct2, THEN conjunct2,
          THEN conjunct2, THEN conjunct2, THEN conjunct1])
  ultimately show ?thesis unfolding Let_def by (intro conjI)
qed

text \<open>
  Claim C8. \<open>Query.authors\<close> and \<open>Query.books\<close> return the store's authors and books and
  leave the store as it was, whatever parent and arguments they are called with; so a
  second call right after the first runs on the same store and returns the same
  sequence.
\<close>

theorem Query_idempotent:
  "resolve F_Query_authors s p1 a1 = Inr (s, R_Authors (Query_authors s)) \<and>
   resolve F_Query_authors s p2 a2 = Inr (s, R_Authors (Query_authors s)) \<and>
   Query_authors s = authors s \<and>
   resolve F_Query_books s p1 a1 = Inr (s, R_Books (Query_books s)) \<and>
   resolve F_Query_books s p2 a2 = Inr (s, R_Books (Query_books s)) \<and>
   Query_books s = books s"
  by (simp add: Query_authors_def Query_books_def)

section \<open>No faults\<close>

lemma Author_books_stale:
  "\<forall>k\<in>set stale. k \<notin> id_Book ` set (books s) \<Longrightarrow>
   Author_books s (au\<lparr>bookIds := bookIds au @ stale\<rparr>) = Author_books s au"
  unfolding Author_books_def by (rule filter_cong) auto

text \<open>
  Claim C9. When the parent has the shape of the field's type, every resolver returns
  a value and no error. A miss of \<open>Book.author\<close> resolves to absent; \<open>Author.books\<close> with no
  matching book resolves to the empty sequence; ids in \<open>bookIds\<close> that match no book are
  ignored, so the result is the sequence for the ids that do match.
\<close>

theorem resolvers_total:
  assumes shape: "well_shaped f p"
  shows "(\<exists>s' r. resolve f s p a = Inr (s', r)) \<and>
         ((\<forall>x\<in>set (authors s). id_Author x \<noteq> authorId b) \<longrightarrow>
            resolve F_Book_author s (BookV b) a = Inr (s, R_Author None)) \<and>
         ((\<forall>k\<in>set (books s). id_Book k \<notin> set (bookIds au)) \<longrightarrow>
            resolve F_Author_books s (AuthorV au) a = Inr (s, R_Books [])) \<and>
         ((\<forall>k\<in>set stale. k \<notin> id_Book ` set (books s)) \<longrightarrow>
            resolve F_Author_books s (AuthorV (au\<lparr>bookIds := bookIds au @ stale\<rparr>)) a
              = resolve F_Author_books s (AuthorV au) a)"
proof (intro conjI impI)
  from shape show "\<exists>s' r. resolve f s p a = Inr (s', r)"
    by (cases f; cases p) (auto split: prod.splits)
next
  assume "\<forall>x\<in>set (authors s). id_Author x \<noteq> authorId b"
  then show "resolve F_Book_author s (BookV b) a = Inr (s, R_Author None)"
    by (simp add: Book_author_def find_None_iff)
next
  assume "\<forall>k\<in>set (books s). id_Book k \<notin> set (bookIds au)"
  then show "resolve F_Author_books s (AuthorV au) a = Inr (s, R_Books [])"
    by (simp add: Author_books_def)
next
  assume "\<forall>k\<in>set stale. k \<notin> id_Book ` set (books s)"
  then show "resolve F_Author_books s (AuthorV (au\<lparr>bookIds := bookIds au @ stale\<rparr>)) a
              = resolve F_Author_books s (AuthorV au) a"
    by (simp add: Author_books_stale)
qed

theorem resolvers_total_witness:
  "(\<exists>s' r. resolve F_Author_books data
       (AuthorV \<lparr>id_Author = ''2'', name = ''Akshay Saini'', bookIds = [''103'']\<rparr>)
       \<lparr>title_arg = [], publishedYear_arg = None, authorId_arg = []\<rparr> = Inr (s', r)) \<and>
   resolve F_Book_author data
       (BookV \<lparr>id_Book = ''900'', title = ''Lost'', publishedYear = None, authorId = ''7''\<rparr>)
       \<lparr>title_arg = [], publishedYear_arg = None, authorId_arg = []\<rparr> = Inr (data, R_Author None) \<and>
   resolve F_Author_books data
       (AuthorV \<lparr>id_Author = ''3'', name = ''New'', bookIds = [''555'']\<rparr>)
       \<lparr>title_arg = [], publishedYear_arg = None, authorId_arg = []\<rparr> = Inr (data, R_Books []) \<and>
   resolve F_Author_books data
       (AuthorV \<lparr>id_Author = ''2'', name = ''Akshay Saini'', bookIds = [''103'', ''555'']\<rparr>)
       \<lparr>title_arg = [], publishedYear_arg = None, authorId_arg = []\<rparr>
     = resolve F_Author_books data
       (AuthorV \<lparr>id_Author = ''2'', name = ''Akshay Saini'', bookIds = [''103'']\<rparr>)
       \<lparr>title_arg = [], publishedYear_arg = None, authorId_arg = []\<rparr>"
proof -
  let ?a = "\<lparr>title_arg = [], publishedYear_arg = None, authorId_arg = []\<rparr>"
  let ?au = "\<lparr>id_Author = ''2'', name = ''Akshay Saini'', bookIds = [''103'']\<rparr>"
  let ?b = "\<lparr>id_Book = ''900'', title = ''Lost'', publishedYear = None, authorId = ''7''\<rparr>"
  let ?n = "\<lparr>id_Author = ''3'', name = ''New'', bookIds = [''555'']\<rparr>"
  have shape: "well_shaped F_Author_books (AuthorV ?au)" by simp
  note T = resolvers_total [OF shape, of data ?a]
  have m: "\<forall>x\<in>set (authors data). id_Author x \<noteq> authorId ?b" by (simp add: data_def)
  have e: "\<forall>k\<in>set (books data). id_Book k \<notin> set (bookIds ?n)" by (simp add: data_def)
  have st: "\<forall>k\<in>set [''555'']. k \<notin> id_Book ` set (books data)" by (simp add: data_def)
  have u: "?au\<lparr>bookIds := bookIds ?au @ [''555'']\<rparr>
      = \<lparr>id_Author = ''2'', name = ''Akshay Saini'', bookIds = [''103'', ''555'']\<rparr>" by simp
  have "\<exists>s' r. resolve F_Author_books data (AuthorV ?au) ?a = Inr (s', r)"
    by (rule T [THEN conjunct1])
  moreover have "resolve F_Book_author data (BookV ?b) ?a = Inr (data, R_Author None)"
    by (rule T [of ?b, THEN conjunct2, THEN conjunct1, THEN mp, OF m])
  moreover have "resolve F_Author_books data (AuthorV ?n) ?a = Inr (data, R_Books [])"
    by (rule T [of _ ?n, THEN conjunct2, THEN conjunct2, THEN conjunct1, THEN mp, OF e])
  moreover have "resolve F_Author_books data
       (AuthorV \<lparr>id_Author = ''2'', name = ''Akshay Saini'', bookIds = [''103'', ''555'']\<rparr>) ?a
     = resolve F_Author_books data (AuthorV ?au) ?a"
    using T [of _ ?au "[''555'']", THEN conjunct2, THEN conjunct2, THEN conjunct2, THEN mp, OF st]
    by (simp only: u)
  ultimately show ?thesis by (intro conjI)
qed

text \<open>
  The shape is needed: on the seeded store a parent without \<open>bookIds\<close> makes
  \<open>Author.books\<close> throw, and \<open>undefined\<close> makes \<open>Book.author\<close> throw.
\<close>

lemma ill_shaped_parent_throws:
  "resolve F_Author_books data Undefined a = Inl TypeError \<and>
   resolve F_Author_books data (BookV b) a = Inl TypeError \<and>
   resolve F_Book_author data Undefined a = Inl TypeError"
  by (simp add: data_def)

section \<open>Book ids stay distinct\<close>

lemma addBook_sequential:
  assumes inv: "map id_Book (books s) = map (\<lambda>i. toString (i + 101)) [0..<length (books s)]"
    and run: "Mutation_addBook s a = (s', nb)"
  shows "map id_Book (books s') = map (\<lambda>i. toString (i + 101)) [0..<length (books s')]"
proof -
  from run have "books s' = books s @ [nb]" by (rule addBook_books)
  moreover from run have "id_Book nb = toString (length (books s) + 101)"
    by (auto dest: addBook_returned)
  ultimately show ?thesis using inv by simp
qed

lemma addBooks_sequential:
  "map id_Book (books s) = map (\<lambda>i. toString (i + 101)) [0..<length (books s)] \<Longrightarrow>
   addBooks s as = (s', bs) \<Longrightarrow>
   map id_Book (books s') = map (\<lambda>i. toString (i + 101)) [0..<length (books s')]"
proof (induction as arbitrary: s s' bs)
  case Nil
  then show ?case by simp
next
  case (Cons a as)
  obtain s1 b where m: "Mutation_addBook s a = (s1, b)" by (cases "Mutation_addBook s a")
  obtain s2 cs where r: "addBooks s1 as = (s2, cs)" by (cases "addBooks s1 as")
  from Cons.prems(2) m r have e: "s' = s2" by simp
  from addBook_sequential [OF Cons.prems(1) m] have "map id_Book (books s1)
      = map (\<lambda>i. toString (i + 101)) [0..<length (books s1)]" .
  from Cons.IH [OF this r] e show ?case by simp
qed

lemma data_sequential:
  "map id_Book (books data) = map (\<lambda>i. toString (i + 101)) [0..<length (books data)]"
proof -
  have "toString 101 = ''101''" "toString 102 = ''102''" "toString 103 = ''103''"
    by code_simp+
  moreover have "[0..<length (books data)] = [0, 1, 2]"
    by (simp add: data_def upt_rec)
  ultimately show ?thesis by (simp add: data_def)
qed

text \<open>
  Claim C10. After any run of \<open>addBook\<close> calls from the seeded store the book ids are
  pairwise distinct: the ids, read as numbers, are 101, 102, ... in store order, so the
  next generated id, book count plus 101, is above every id in the store; and the
  store holds the three seeded books and one more for each call.
\<close>

theorem book_ids_distinct:
  assumes run: "addBooks data as = (s', bs)"
  shows "distinct (map id_Book (books s')) \<and>
         map (\<lambda>b. dec_value (id_Book b)) (books s') = [101..<length (books s') + 101] \<and>
         (\<forall>b\<in>set (books s').
            dec_value (id_Book b) < dec_value (toString (length (books s') + 101))) \<and>
         length (books s') = 3 + length as"
proof -
  from addBooks_sequential [OF data_sequential run]
  have inv: "map id_Book (books s') = map (\<lambda>i. toString (i + 101)) [0..<length (books s')]" .
  have "inj_on (\<lambda>i. toString (i + 101)) (set [0..<length (books s')])"
    by (simp add: inj_on_def inj_eq [OF inj_toString])
  then have d: "distinct (map id_Book (books s'))"
    unfolding inv by (simp add: distinct_map)
  have "map (\<lambda>b. dec_value (id_Book b)) (books s') = map dec_value (map id_Book (books s'))"
    by simp
  also have "\<dots> = map (\<lambda>i. i + 101) [0..<length (books s')]"
    unfolding inv by (simp add: dec_value_toString)
  also have "\<dots> = [101..<length (books s') + 101]"
    by (simp add: map_add_upt)
  finally have v: "map (\<lambda>b. dec_value (id_Book b)) (books s') = [101..<length (books s') + 101]" .
  have lt: "dec_value (id_Book b) < dec_value (toString (length (books s') + 101))"
    if "b \<in> set (books s')" for b
  proof -
    from that have "dec_value (id_Book b) \<in> set (map (\<lambda>b. dec_value (id_Book b)) (books s'))"
      by auto
    then have "dec_value (id_Book b) \<in> set [101..<length (books s') + 101]"
      unfolding v .
    then show ?thesis by (simp add: dec_value_toString)
  qed
  from addBooks_listing [OF run] have "length (books s') = 3 + length as"
    by (simp add: data_def)
  with d v lt show ?thesis by simp
qed

theorem book_ids_distinct_witness:
  "let R = addBooks data
        [\<lparr>title_arg = ''New Book'', publishedYear_arg = Some 2025, authorId_arg = ''1''\<rparr>,
         \<lparr>title_arg = ''X'', publishedYear_arg = Some 1999, authorId_arg = ''does-not-exist''\<rparr>]
   in distinct (map id_Book (books (fst R))) \<and> length (books (fst R)) = 5 \<and>
      map (\<lambda>b. dec_value (id_Book b)) (books (fst R)) = [101, 102, 103, 104, 105]"
proof -
  let ?as = "[\<lparr>title_arg = ''New Book'', publishedYear_arg = Some 2025, authorId_arg = ''1''\<rparr>,
         \<lparr>title_arg = ''X'', publishedYear_arg = Some 1999, authorId_arg = ''does-not-exist''\<rparr>]"
  let ?R = "addBooks data ?as"
  have run: "?R = (fst ?R, snd ?R)" by simp
  note T = book_ids_distinct [OF run]
  have l: "3 + length ?as = 5" by simp
  have len: "length (books (fst ?R)) = 5"
    using T [THEN conjunct2, THEN conjunct2, THEN conjunct2] l by (rule trans)
  have u: "[101..<5 + 101] = [101, 102, 103, 104, 105::nat]" by (simp add: upt_rec)
  have "distinct (map id_Book (books (fst ?R)))" by (rule T [THEN conjunct1])
  moreover have "map (\<lambda>b. dec_value (id_Book b)) (books (fst ?R)) = [101, 102, 103, 104, 105]"
    using T [THEN conjunct2, THEN conjunct1] u by (simp only: len)
  ultimately show ?thesis unfolding Let_def using len by (intro conjI)
qed

end
